theory Spec2Isabelle
  imports Main "HOL-Library.Char_ord" "HOL-Library.List_Lexorder" "HOL-Library.Word"
begin

section \<open>The image commands of crictl (cmd/crictl/image.go)\<close>

text \<open>
  A shallow embedding of \<^verbatim>\<open>cmd/crictl/image.go\<close>. Go strings are byte sequences and
  are modelled as \<^typ>\<open>string\<close> (lists of 8-bit characters); \<^verbatim>\<open>len\<close>, slicing and
  \<^verbatim>\<open><\<close> on Go strings work on bytes, as \<^const>\<open>length\<close>, \<^const>\<open>take\<close>,
  \<^const>\<open>drop\<close> and the lexicographic order on character lists do here.
\<close>

subsection \<open>The functions of Go's strings package that the file calls\<close>

text \<open>
  \<^verbatim>\<open>strings.Index(s, sep)\<close> and \<^verbatim>\<open>strings.LastIndex(s, sep)\<close> for a separator of one
  byte: the position of the first (last) occurrence, or -1.
\<close>

fun Index :: "string \<Rightarrow> char \<Rightarrow> int" where
  "Index [] sep = -1"
| "Index (x # xs) sep =
     (if x = sep then 0 else (let r = Index xs sep in if r = -1 then -1 else r + 1))"

fun LastIndex :: "string \<Rightarrow> char \<Rightarrow> int" where
  "LastIndex [] sep = -1"
| "LastIndex (x # xs) sep =
     (let r = LastIndex xs sep in
      if r \<noteq> -1 then r + 1 else if x = sep then 0 else -1)"

text \<open>
  \<^verbatim>\<open>strings.SplitN(s, sep, 2)\<close>: at most two parts, cut at the first separator.
\<close>

definition SplitN2 :: "string \<Rightarrow> char \<Rightarrow> string list" where
  "SplitN2 s sep =
     (let i = Index s sep in
      if i = -1 then [s] else [take (nat i) s, drop (nat i + 1) s])"

text \<open>\<^verbatim>\<open>strings.Split(s, sep)\<close>: all the parts between separators.\<close>

fun Split :: "string \<Rightarrow> char \<Rightarrow> string list" where
  "Split [] sep = [[]]"
| "Split (x # xs) sep =
     (if x = sep then [] # Split xs sep
      else (case Split xs sep of
              [] \<Rightarrow> [[x]]
            | p # ps \<Rightarrow> (x # p) # ps))"

text \<open>\<^verbatim>\<open>strings.HasPrefix\<close> and \<^verbatim>\<open>strings.TrimPrefix\<close>.\<close>

definition HasPrefix :: "string \<Rightarrow> string \<Rightarrow> bool" where
  "HasPrefix s pre = (length pre \<le> length s \<and> take (length pre) s = pre)"

definition TrimPrefix :: "string \<Rightarrow> string \<Rightarrow> string" where
  "TrimPrefix s pre = (if HasPrefix s pre then drop (length pre) s else s)"

subsection \<open>Errors\<close>

text \<open>
  One constructor for each place where the file makes an error, with the values its
  message is formatted from; \<open>ServiceError\<close> is an error that a call of the image
  service returned.
\<close>

datatype error =
    ServiceError string
  | CredentialsEmpty                   \<comment> \<open>credentials can't be empty\<close>
  | UsernameEmpty                      \<comment> \<open>username can't be empty\<close>
  | ImageIDEmpty                       \<comment> \<open>ImageID cannot be empty\<close>
  | PullFailed error                   \<comment> \<open>pulling image failed: %v\<close>
  | ListFailed error                   \<comment> \<open>listing images failed: %v\<close>
  | InspectStatusFailed string error   \<comment> \<open>image status for %q request failed: %v\<close>
  | NoSuchImagePresent string          \<comment> \<open>no such image %q present\<close>
  | MarshalFailed string error         \<comment> \<open>failed to marshal status to json for %q: %v\<close>
  | OutputStatusFailed string error    \<comment> \<open>failed to output status for %q: %v\<close>
  | OutputOptionInvalid string         \<comment> \<open>output option cannot be %s\<close>
  | StatusRequestFailed string error   \<comment> \<open>image status request for %q failed: %v\<close>
  | NoSuchImage string                 \<comment> \<open>no such image %s\<close>
  | RemoveFailed string error          \<comment> \<open>error of removing image %q: %v\<close>

subsection \<open>Credentials\<close>

definition parseCreds :: "string \<Rightarrow> error + string \<times> string" where
  "parseCreds creds =
     (if creds = [] then Inl CredentialsEmpty
      else (let up = SplitN2 creds (CHR '':'') in
            if length up = 1 then Inr (up ! 0, [])
            else if up ! 0 = [] then Inl UsernameEmpty
            else Inr (up ! 0, up ! 1)))"

subsection \<open>Normalising repository tags and digests\<close>

text \<open>
  The loop of \<^verbatim>\<open>normalizeRepoTagPair\<close> appends one two-element slice for each tag; it
  is a left fold over the tags.
\<close>

definition normalizeRepoTagPair :: "string list \<Rightarrow> string \<Rightarrow> string list list" where
  "normalizeRepoTagPair repoTags imageName =
     (if length repoTags = 0 then [] @ [[imageName, ''<none>'']]
      else foldl (\<lambda>repoTagPairs repoTag.
                    (let idx = LastIndex repoTag (CHR '':'') in
                     if idx = -1 then repoTagPairs @ [[''errorRepoTag'', ''errorRepoTag'']]
                     else repoTagPairs @ [[take (nat idx) repoTag, drop (nat (idx + 1)) repoTag]]))
             [] repoTags)"

definition normalizeRepoDigest :: "string list \<Rightarrow> string \<times> string" where
  "normalizeRepoDigest repoDigests =
     (if length repoDigests = 0 then (''<none>'', ''<none>'')
      else (let repoDigestPair = Split (repoDigests ! 0) (CHR ''@'') in
            if length repoDigestPair \<noteq> 2 then (''errorName'', ''errorRepoDigest'')
            else (repoDigestPair ! 0, repoDigestPair ! 1)))"

subsection \<open>Images and their order\<close>

text \<open>
  The fields of \<^verbatim>\<open>pb.Image\<close> that the file reads. \<open>Id'\<close> is the field \<^verbatim>\<open>Id\<close> (the
  name \<open>Id\<close> is the identity relation of HOL) and \<open>Size'\<close> the field \<^verbatim>\<open>Size_\<close>, a
  \<^verbatim>\<open>uint64\<close>; \<open>Uid\<close> is a pointer to an \<^verbatim>\<open>int64\<close> value, \<open>None\<close> when nil.
\<close>

record image =
  Id' :: string
  RepoTags :: "string list"
  RepoDigests :: "string list"
  Size' :: "64 word"
  Uid :: "64 word option"
  Username :: string

text \<open>
  \<^verbatim>\<open>imageByRef\<close> implements \<^verbatim>\<open>sort.Interface\<close> on a slice of images. An index out
  of range panics: \<open>None\<close>.
\<close>

definition Len :: "image list \<Rightarrow> nat" where
  "Len a = length a"

definition Swap :: "image list \<Rightarrow> nat \<Rightarrow> nat \<Rightarrow> image list option" where
  "Swap a i j =
     (if i < length a \<and> j < length a then Some (a[i := a ! j, j := a ! i]) else None)"

definition Less :: "image list \<Rightarrow> nat \<Rightarrow> nat \<Rightarrow> bool option" where
  "Less a i j =
     (if i < length a \<and> j < length a then
        Some (if length (RepoTags (a ! i)) > 0 \<and> length (RepoTags (a ! j)) > 0
              then RepoTags (a ! i) ! 0 < RepoTags (a ! j) ! 0
              else if length (RepoDigests (a ! i)) > 0 \<and> length (RepoDigests (a ! j)) > 0
              then RepoDigests (a ! i) ! 0 < RepoDigests (a ! j) ! 0
              else Id' (a ! i) < Id' (a ! j))
      else None)"

subsection \<open>The image service\<close>

text \<open>
  The requests the commands send, and the response of a status request. The service is
  an outside collaborator: a client answers a request as a function of the requests
  sent to it before (oldest first), so any deterministic service is a client. Each
  wrapper below returns the answer and the requests sent so far, extended by its own.
  The debug logging of the wrappers is not modelled.
\<close>

datatype request =
    ListImagesRequest string
  | ImageStatusRequest string bool
  | RemoveImageRequest string

record ImageStatusResponse =
  Image :: "image option"
  Info :: "(string \<times> string) list"

record ImageServiceClient =
  clientListImages :: "request list \<Rightarrow> string \<Rightarrow> error + image list"
  clientImageStatus :: "request list \<Rightarrow> string \<Rightarrow> bool \<Rightarrow> error + ImageStatusResponse"
  clientRemoveImage :: "request list \<Rightarrow> string \<Rightarrow> error + unit"

definition ListImages ::
  "ImageServiceClient \<Rightarrow> request list \<Rightarrow> string \<Rightarrow> (error + image list) \<times> request list" where
  "ListImages client sent img =
     (let request = ListImagesRequest img in
      (clientListImages client sent img, sent @ [request]))"

definition ImageStatus ::
  "ImageServiceClient \<Rightarrow> request list \<Rightarrow> string \<Rightarrow> bool
     \<Rightarrow> (error + ImageStatusResponse) \<times> request list" where
  "ImageStatus client sent img verbose =
     (let request = ImageStatusRequest img verbose in
      (clientImageStatus client sent img verbose, sent @ [request]))"

definition RemoveImage ::
  "ImageServiceClient \<Rightarrow> request list \<Rightarrow> string \<Rightarrow> (error + unit) \<times> request list" where
  "RemoveImage client sent img =
     (if img = [] then (Inl ImageIDEmpty, sent)
      else (let request = RemoveImageRequest img in
            (clientRemoveImage client sent img, sent @ [request])))"

subsection \<open>What the file takes from other packages\<close>

text \<open>
  Functions that the commands call and that are defined elsewhere: the sort of Go's
  \<^verbatim>\<open>sort\<close> package driven by \<^verbatim>\<open>imageByRef\<close>, the size formatter of go-units, the
  formatting of values by \<^verbatim>\<open>%v\<close>, the help printer of the command line library, and
  the JSON and YAML printers of crictl's utilities. A printer returns its error, if
  any, and the text it wrote to standard output. \<open>getImageClient\<close> is the result of
  \<^verbatim>\<open>getImageClient(context)\<close>, which sets up the client of the image service: its error,
  or \<open>None\<close> when the client (the parameter \<open>client\<close> of the commands) is ready.
\<close>

record externals =
  getImageClient :: "error option"
  sortImages :: "image list \<Rightarrow> image list"
  HumanSizeWithPrecision :: "64 word \<Rightarrow> string"
  formatUid :: "64 word \<Rightarrow> string"
  formatInfo :: "(string \<times> string) list \<Rightarrow> string"
  ShowSubcommandHelp :: "error option \<times> string"
  outputProtobufObjAsJSON :: "image list \<Rightarrow> error option \<times> string"
  outputProtobufObjAsYAML :: "image list \<Rightarrow> error option \<times> string"
  protobufObjectToJSON :: "image \<Rightarrow> error + string"
  outputStatusInfo :: "string \<Rightarrow> (string \<times> string) list \<Rightarrow> string \<Rightarrow> error option \<times> string"

text \<open>
  Modelled from the spec: the constant \<^verbatim>\<open>truncatedIDLen\<close> is declared in another file
  of the package; the spec gives the fixed length of a truncated identifier as 12.
\<close>

definition truncatedIDLen :: nat where
  "truncatedIDLen = 12"

abbreviation newline :: string where
  "newline \<equiv> [CHR 0x0A]"

abbreviation tab :: string where
  "tab \<equiv> [CHR 0x09]"

text \<open>\<^verbatim>\<open>%d\<close> of an unsigned integer.\<close>

fun decimal :: "nat \<Rightarrow> string" where
  "decimal n =
     (if n < 10 then [char_of (48 + n)]
      else decimal (n div 10) @ [char_of (48 + n mod 10)])"

declare decimal.simps [simp del]

text \<open>\<^verbatim>\<open>context.Args().First()\<close>: the first argument, or the empty string.\<close>

definition First :: "string list \<Rightarrow> string" where
  "First args = (case args of [] \<Rightarrow> [] | a # _ \<Rightarrow> a)"

subsection \<open>The images command\<close>

record listFlags =
  f_verbose :: bool
  f_quiet :: bool
  f_output :: string
  f_digests :: bool
  f_noTrunc :: bool

text \<open>
  The output of the command: \<open>out\<close> is what \<^verbatim>\<open>fmt.Printf\<close> wrote to standard output,
  \<open>w\<close> the text written to the tabwriter. \<^verbatim>\<open>w.Flush()\<close> aligns the columns of \<open>w\<close>
  and writes them to standard output after \<open>out\<close>; the alignment is the tabwriter's
  and is not modelled.
\<close>

text \<open>The identifier shown in a table row (the assignments to \<^verbatim>\<open>id\<close> in the loop).\<close>

definition displayedID :: "bool \<Rightarrow> image \<Rightarrow> string" where
  "displayedID noTrunc img =
     (if \<not> noTrunc then
        (let id = TrimPrefix (Id' img) ''sha256:'' in
         if length id > truncatedIDLen then take truncatedIDLen id else id)
      else Id' img)"

text \<open>The rows of one image in table mode: one for each pair of name and tag.\<close>

definition tableRows :: "externals \<Rightarrow> listFlags \<Rightarrow> image \<Rightarrow> string \<Rightarrow> string" where
  "tableRows ext flags img w =
     (let (imageName, repoDigest) = normalizeRepoDigest (RepoDigests img);
          repoTagPairs = normalizeRepoTagPair (RepoTags img) imageName;
          size = HumanSizeWithPrecision ext (Size' img);
          id = displayedID (f_noTrunc flags) img
      in foldl (\<lambda>w repoTagPair.
                  if f_digests flags
                  then w @ repoTagPair ! 0 @ tab @ repoTagPair ! 1 @ tab @ repoDigest @ tab
                         @ id @ tab @ size @ newline
                  else w @ repoTagPair ! 0 @ tab @ repoTagPair ! 1 @ tab @ id @ tab @ size
                         @ newline)
            w repoTagPairs)"

text \<open>The block of one image in verbose mode.\<close>

definition verboseBlock :: "externals \<Rightarrow> image \<Rightarrow> string" where
  "verboseBlock ext img =
     ''ID: '' @ Id' img @ newline
     @ concat (map (\<lambda>tag. ''RepoTags: '' @ tag @ newline) (RepoTags img))
     @ concat (map (\<lambda>digest. ''RepoDigests: '' @ digest @ newline) (RepoDigests img))
     @ (if Size' img \<noteq> 0 then ''Size: '' @ decimal (unat (Size' img)) @ newline else [])
     @ (case Uid img of None \<Rightarrow> [] | Some uid \<Rightarrow> ''Uid: '' @ formatUid ext uid @ newline)
     @ (if Username img \<noteq> [] then ''Username: '' @ Username img @ newline @ newline
        else [])"

text \<open>The body of the loop over the images, on the pair of \<open>out\<close> and \<open>w\<close>.\<close>

definition printImage ::
  "externals \<Rightarrow> listFlags \<Rightarrow> string \<times> string \<Rightarrow> image \<Rightarrow> string \<times> string" where
  "printImage ext flags st img =
     (case st of (out, w) \<Rightarrow>
        if f_quiet flags then (out @ Id' img @ newline, w)
        else if \<not> f_verbose flags then (out, tableRows ext flags img w)
        else (out @ verboseBlock ext img, w))"

text \<open>
  The action of the command, from the call of \<^verbatim>\<open>ListImages\<close> on (the client is the
  one \<^verbatim>\<open>getImageClient\<close> has set up). It returns the error, \<open>out\<close> and \<open>w\<close>, and the
  requests sent.
\<close>

definition listImageCommand ::
  "externals \<Rightarrow> ImageServiceClient \<Rightarrow> listFlags \<Rightarrow> string list \<Rightarrow> request list
     \<Rightarrow> (error option \<times> string \<times> string) \<times> request list" where
  "listImageCommand ext client flags args sent =
     (case ListImages client sent (First args) of
        (Inl err, sent') \<Rightarrow> ((Some (ListFailed err), [], []), sent')
      | (Inr r, sent') \<Rightarrow>
          (let images = sortImages ext r in
           if f_output flags = ''json'' then
             (case outputProtobufObjAsJSON ext images of (e, txt) \<Rightarrow> ((e, txt, []), sent'))
           else if f_output flags = ''yaml'' then
             (case outputProtobufObjAsYAML ext images of (e, txt) \<Rightarrow> ((e, txt, []), sent'))
           else
             (let verbose = f_verbose flags;
                  showDigest = f_digests flags;
                  quiet = f_quiet flags;
                  w = (if \<not> verbose \<and> \<not> quiet then
                         (if showDigest
                          then ''IMAGE'' @ tab @ ''TAG'' @ tab @ ''DIGEST'' @ tab @ ''IMAGE ID''
                                 @ tab @ ''SIZE'' @ newline
                          else ''IMAGE'' @ tab @ ''TAG'' @ tab @ ''IMAGE ID'' @ tab @ ''SIZE''
                                 @ newline)
                       else [])
              in (case foldl (printImage ext flags) ([], w) images of
                    (out, w') \<Rightarrow> ((None, out, w'), sent')))))"

subsection \<open>The inspecti command\<close>

record statusFlags =
  s_output :: string
  s_quiet :: bool

text \<open>The table output of one image status.\<close>

definition statusTable :: "externals \<Rightarrow> bool \<Rightarrow> image \<Rightarrow> ImageStatusResponse \<Rightarrow> string" where
  "statusTable ext verbose img r =
     ''ID: '' @ Id' img @ newline
     @ concat (map (\<lambda>tag. ''Tag: '' @ tag @ newline) (RepoTags img))
     @ concat (map (\<lambda>digest. ''Digest: '' @ digest @ newline) (RepoDigests img))
     @ ''Size: '' @ HumanSizeWithPrecision ext (Size' img) @ newline
     @ (if verbose then ''Info: '' @ formatInfo ext (Info r) @ newline else [])"

text \<open>
  The loop over the arguments, on the requests sent and the text printed. It returns at
  the first error.
\<close>

fun imageStatusLoop ::
  "externals \<Rightarrow> ImageServiceClient \<Rightarrow> bool \<Rightarrow> string \<Rightarrow> string list \<Rightarrow> request list \<times> string
     \<Rightarrow> error option \<times> request list \<times> string" where
  "imageStatusLoop ext client verbose output [] (sent, out) = (None, sent, out)"
| "imageStatusLoop ext client verbose output (id' # ids) (sent, out) =
     (case ImageStatus client sent id' verbose of
        (Inl err, sent') \<Rightarrow> (Some (InspectStatusFailed id' err), sent', out)
      | (Inr r, sent') \<Rightarrow>
          (case Image r of
             None \<Rightarrow> (Some (NoSuchImagePresent id'), sent', out)
           | Some img \<Rightarrow>
               (case protobufObjectToJSON ext img of
                  Inl err \<Rightarrow> (Some (MarshalFailed id' err), sent', out)
                | Inr status \<Rightarrow>
                    if output = ''json'' \<or> output = ''yaml'' then
                      (case outputStatusInfo ext status (Info r) output of
                         (Some err, txt) \<Rightarrow> (Some (OutputStatusFailed id' err), sent', out @ txt)
                       | (None, txt) \<Rightarrow>
                           imageStatusLoop ext client verbose output ids (sent', out @ txt))
                    else if output = ''table'' then
                      imageStatusLoop ext client verbose output ids
                        (sent', out @ statusTable ext verbose img r)
                    else (Some (OutputOptionInvalid output), sent', out))))"

definition imageStatusCommand ::
  "externals \<Rightarrow> ImageServiceClient \<Rightarrow> statusFlags \<Rightarrow> string list \<Rightarrow> request list
     \<Rightarrow> error option \<times> request list \<times> string" where
  "imageStatusCommand ext client flags args sent =
     (if length args = 0 then
        (case ShowSubcommandHelp ext of (e, txt) \<Rightarrow> (e, sent, txt))
      else
        (case getImageClient ext of
           Some err \<Rightarrow> (Some err, sent, [])
         | None \<Rightarrow>
             (let verbose = \<not> s_quiet flags;
                  output = (if s_output flags = [] then ''json'' else s_output flags)
              in imageStatusLoop ext client verbose output args (sent, []))))"

subsection \<open>The rmi command\<close>

fun removeImageLoop ::
  "ImageServiceClient \<Rightarrow> string list \<Rightarrow> request list \<times> string
     \<Rightarrow> error option \<times> request list \<times> string" where
  "removeImageLoop client [] (sent, out) = (None, sent, out)"
| "removeImageLoop client (id' # ids) (sent, out) =
     (let verbose = False in
      case ImageStatus client sent id' verbose of
        (Inl err, sent') \<Rightarrow> (Some (StatusRequestFailed id' err), sent', out)
      | (Inr status, sent') \<Rightarrow>
          (case Image status of
             None \<Rightarrow> (Some (NoSuchImage id'), sent', out)
           | Some img \<Rightarrow>
               (case RemoveImage client sent' id' of
                  (Inl err, sent'') \<Rightarrow> (Some (RemoveFailed id' err), sent'', out)
                | (Inr _, sent'') \<Rightarrow>
                    removeImageLoop client ids
                      (sent'',
                       foldl (\<lambda>out repoTag. out @ ''Deleted: '' @ repoTag @ newline)
                         out (RepoTags img)))))"

definition removeImageCommand ::
  "externals \<Rightarrow> ImageServiceClient \<Rightarrow> string list \<Rightarrow> request list
     \<Rightarrow> error option \<times> request list \<times> string" where
  "removeImageCommand ext client args sent =
     (if length args = 0 then
        (case ShowSubcommandHelp ext of (e, txt) \<Rightarrow> (e, sent, txt))
      else
        (case getImageClient ext of
           Some err \<Rightarrow> (Some err, sent, [])
         | None \<Rightarrow> removeImageLoop client args (sent, [])))"

subsection \<open>A small service for concrete runs\<close>

text \<open>
  One image, a service that knows it under the name \<open>busybox\<close>, and stand-ins for the
  functions of other packages. They are the inputs of the concrete runs below.
\<close>

definition demoImage :: image where
  "demoImage =
     \<lparr>Id' = ''sha256:abcdef0123456789abcdef0123456789'',
      RepoTags = [''busybox:latest'', ''busybox:1.36''],
      RepoDigests = [''busybox@sha256:ab12''],
      Size' = 4261550, Uid = None, Username = []\<rparr>"

definition demoClient :: ImageServiceClient where
  "demoClient =
     \<lparr>clientListImages = (\<lambda>sent filter. Inr [demoImage]),
      clientImageStatus = (\<lambda>sent i verbose.
         Inr \<lparr>Image = (if i = ''busybox'' then Some demoImage else None), Info = []\<rparr>),
      clientRemoveImage = (\<lambda>sent i. Inr ())\<rparr>"

definition demoExternals :: externals where
  "demoExternals =
     \<lparr>getImageClient = None,
      sortImages = (\<lambda>images. images),
      HumanSizeWithPrecision = (\<lambda>n. ''4.26MB''),
      formatUid = (\<lambda>uid. ''0''),
      formatInfo = (\<lambda>info. ''map[]''),
      ShowSubcommandHelp = (None, ''help''),
      outputProtobufObjAsJSON = (\<lambda>images. (None, ''{}'')),
      outputProtobufObjAsYAML = (\<lambda>images. (None, ''{}'')),
      protobufObjectToJSON = (\<lambda>img. Inr ''{}''),
      outputStatusInfo = (\<lambda>status info output. (None, ''{}''))\<rparr>"

text \<open>An image with the given identifier, tags and digests, for the runs of the comparison.\<close>

definition imageOf :: "string \<Rightarrow> string list \<Rightarrow> string list \<Rightarrow> image" where
  "imageOf i tags digests =
     \<lparr>Id' = i, RepoTags = tags, RepoDigests = digests, Size' = 0, Uid = None, Username = []\<rparr>"

section \<open>Properties\<close>

subsection \<open>The string functions\<close>

lemma Index_notin: "sep \<notin> set s \<Longrightarrow> Index s sep = -1"
  by (induction s) auto

lemma Index_first: "sep \<notin> set u \<Longrightarrow> Index (u @ sep # p) sep = int (length u)"
  by (induction u) (auto simp: Let_def)

lemma LastIndex_notin: "sep \<notin> set s \<Longrightarrow> LastIndex s sep = -1"
  by (induction s) auto

lemma LastIndex_nonneg: "-1 \<le> LastIndex s sep"
  by (induction s) (auto simp: Let_def)

lemma LastIndex_last: "sep \<notin> set t \<Longrightarrow> LastIndex (u @ sep # t) sep = int (length u)"
proof (induction u)
  case Nil
  then show ?case by (simp add: LastIndex_notin)
next
  case (Cons x u)
  then show ?case by (simp add: Let_def)
qed

lemma SplitN2_notin: "sep \<notin> set s \<Longrightarrow> SplitN2 s sep = [s]"
  by (simp add: SplitN2_def Index_notin)

lemma SplitN2_first: "sep \<notin> set u \<Longrightarrow> SplitN2 (u @ sep # p) sep = [u, p]"
  by (simp add: SplitN2_def Index_first)

lemma Split_notin: "sep \<notin> set s \<Longrightarrow> Split s sep = [s]"
  by (induction s) auto

lemma Split_first: "sep \<notin> set u \<Longrightarrow> Split (u @ sep # p) sep = u # Split p sep"
  by (induction u) auto

lemma Split_length: "length (Split s sep) = Suc (length (filter (\<lambda>c. c = sep) s))"
  by (induction s) (auto split: list.splits)

lemma split_at_first:
  "sep \<in> set s \<Longrightarrow> \<exists>u p. s = u @ sep # p \<and> sep \<notin> set u"
  by (metis split_list_first)

lemma split_at_last:
  "sep \<in> set s \<Longrightarrow> \<exists>u t. s = u @ sep # t \<and> sep \<notin> set t"
  by (metis split_list_last)

lemma foldl_append_concat:
  "foldl (\<lambda>out x. out @ f x) out xs = out @ concat (map f xs)"
  by (induction xs arbitrary: out) auto

subsection \<open>Credentials\<close>

lemma takeWhile_first:
  "sep \<notin> set u \<Longrightarrow> takeWhile (\<lambda>c. c \<noteq> sep) (u @ sep # p) = u"
  by (induction u) auto

lemma takeWhile_notin:
  "sep \<notin> set s \<Longrightarrow> takeWhile (\<lambda>c. c \<noteq> sep) s = s"
  by (induction s) auto

lemma parseCreds_no_colon:
  "s \<noteq> [] \<Longrightarrow> CHR '':'' \<notin> set s \<Longrightarrow> parseCreds s = Inr (s, [])"
  by (simp add: parseCreds_def SplitN2_notin)

lemma parseCreds_colon:
  "CHR '':'' \<notin> set u \<Longrightarrow>
     parseCreds (u @ CHR '':'' # p) = (if u = [] then Inl UsernameEmpty else Inr (u, p))"
  by (simp add: parseCreds_def SplitN2_first)

lemma parseCreds_empty: "parseCreds [] = Inl CredentialsEmpty"
  by (simp add: parseCreds_def)

lemma parseCreds_isl:
  "isl (parseCreds s) \<longleftrightarrow> s = [] \<or> takeWhile (\<lambda>c. c \<noteq> CHR '':'') s = []"
proof (cases "CHR '':'' \<in> set s")
  case True
  from split_at_first [OF True]
  obtain u p where s: "s = u @ CHR '':'' # p" and u: "CHR '':'' \<notin> set u"
    by auto
  have tw: "takeWhile (\<lambda>c. c \<noteq> CHR '':'') (u @ CHR '':'' # p) = u"
    using u by (rule takeWhile_first)
  show ?thesis
    unfolding s tw parseCreds_colon [OF u] by simp
next
  case False
  then have tw: "takeWhile (\<lambda>c. c \<noteq> CHR '':'') s = s"
    by (rule takeWhile_notin)
  show ?thesis
  proof (cases "s = []")
    case True
    then show ?thesis by (simp add: parseCreds_empty)
  next
    case ne: False
    show ?thesis
      unfolding tw parseCreds_no_colon [OF ne False] using ne by simp
  qed
qed

text \<open>
  Claim C2. For every credential string \<open>s\<close>, \<open>parseCreds s\<close> is an error exactly when
  \<open>s\<close> is empty or the segment of \<open>s\<close> before its first colon is empty. Otherwise it
  returns the user name and the password, cut at the first colon: a non-empty \<open>s\<close> with no
  colon gives \<open>(s, [])\<close>, and \<open>u @ ':' # p\<close> with a non-empty, colon-free \<open>u\<close> gives
  \<open>(u, p)\<close>. The two errors are those of the empty string and of the empty user name.
\<close>

theorem parseCreds_spec:
  "(isl (parseCreds s) \<longleftrightarrow> s = [] \<or> takeWhile (\<lambda>c. c \<noteq> CHR '':'') s = [])
   \<and> (s \<noteq> [] \<and> CHR '':'' \<notin> set s \<longrightarrow> parseCreds s = Inr (s, []))
   \<and> (u \<noteq> [] \<and> CHR '':'' \<notin> set u \<longrightarrow> parseCreds (u @ CHR '':'' # p) = Inr (u, p))
   \<and> parseCreds [] = Inl CredentialsEmpty
   \<and> parseCreds (CHR '':'' # p) = Inl UsernameEmpty"
proof (intro conjI impI)
  show "isl (parseCreds s) \<longleftrightarrow> s = [] \<or> takeWhile (\<lambda>c. c \<noteq> CHR '':'') s = []"
    by (rule parseCreds_isl)
  show "parseCreds s = Inr (s, [])" if "s \<noteq> [] \<and> CHR '':'' \<notin> set s"
    using that by (simp add: parseCreds_no_colon)
  show "parseCreds (u @ CHR '':'' # p) = Inr (u, p)" if "u \<noteq> [] \<and> CHR '':'' \<notin> set u"
    using that by (simp add: parseCreds_colon)
  show "parseCreds [] = Inl CredentialsEmpty"
    by (rule parseCreds_empty)
  show "parseCreds (CHR '':'' # p) = Inl UsernameEmpty"
    using parseCreds_colon [of "[]" p] by simp
qed

text \<open>The theorem at \<open>bob\<close>, \<open>bob:pw:x\<close> and \<open>:pw\<close>.\<close>

theorem parseCreds_spec_witness:
  "parseCreds ''bob'' = Inr (''bob'', [])
   \<and> parseCreds ''bob:pw:x'' = Inr (''bob'', ''pw:x'')
   \<and> isl (parseCreds '':pw'')"
  using parseCreds_spec [of "''bob''" "''bob''" "''pw:x''"] parseCreds_spec [of "'':pw''"]
  by simp

subsection \<open>Repository tags\<close>

lemma foldl_snoc_map: "foldl (\<lambda>acc x. acc @ [f x]) acc xs = acc @ map f xs"
  by (induction xs arbitrary: acc) auto

lemma normalizeRepoTagPair_map:
  assumes "T \<noteq> []"
  shows "normalizeRepoTagPair T n =
     map (\<lambda>repoTag. if LastIndex repoTag (CHR '':'') = -1 then [''errorRepoTag'', ''errorRepoTag'']
                     else [take (nat (LastIndex repoTag (CHR '':''))) repoTag,
                           drop (nat (LastIndex repoTag (CHR '':'') + 1)) repoTag]) T"
proof -
  have eq: "(\<lambda>repoTagPairs repoTag.
                    (let idx = LastIndex repoTag (CHR '':'') in
                     if idx = -1 then repoTagPairs @ [[''errorRepoTag'', ''errorRepoTag'']]
                     else repoTagPairs @ [[take (nat idx) repoTag, drop (nat (idx + 1)) repoTag]]))
    = (\<lambda>acc x. acc @ [if LastIndex x (CHR '':'') = -1 then [''errorRepoTag'', ''errorRepoTag'']
                     else [take (nat (LastIndex x (CHR '':''))) x,
                           drop (nat (LastIndex x (CHR '':'') + 1)) x]])"
    by (auto simp: Let_def fun_eq_iff)
  from assms show ?thesis
    unfolding normalizeRepoTagPair_def eq foldl_snoc_map by simp
qed

lemma split_last_take: "sep \<notin> set t \<Longrightarrow>
   take (nat (LastIndex (u @ sep # t) sep)) (u @ sep # t) = u"
  by (simp add: LastIndex_last)

lemma split_last_drop: "sep \<notin> set t \<Longrightarrow>
   drop (nat (LastIndex (u @ sep # t) sep + 1)) (u @ sep # t) = t"
  by (simp add: LastIndex_last nat_add_distrib)

lemma LastIndex_found: "sep \<notin> set t \<Longrightarrow> LastIndex (u @ sep # t) sep \<noteq> -1"
  by (simp add: LastIndex_last)

text \<open>
  Claim C3. For every list of repository tags \<open>T\<close> and display name \<open>n\<close>,
  \<open>normalizeRepoTagPair T n\<close> is the one pair \<open>[n, <none>]\<close> when \<open>T\<close> is empty. When
  \<open>T\<close> is not empty it has exactly \<open>length T\<close> pairs, in the order of \<open>T\<close>: the pair
  of an entry with no colon is \<open>[errorRepoTag, errorRepoTag]\<close>, and the pair of an entry
  \<open>name @ ':' # tag\<close> whose \<open>tag\<close> has no colon (the cut at the last colon) is
  \<open>[name, tag]\<close>.
\<close>

theorem normalizeRepoTagPair_spec:
  "normalizeRepoTagPair [] n = [[n, ''<none>'']]
   \<and> (T \<noteq> [] \<longrightarrow>
        length (normalizeRepoTagPair T n) = length T
        \<and> (\<forall>i < length T.
              (CHR '':'' \<notin> set (T ! i) \<longrightarrow>
                 normalizeRepoTagPair T n ! i = [''errorRepoTag'', ''errorRepoTag''])
              \<and> (\<forall>name tag. T ! i = name @ CHR '':'' # tag \<and> CHR '':'' \<notin> set tag \<longrightarrow>
                    normalizeRepoTagPair T n ! i = [name, tag])))"
proof (intro conjI impI allI)
  show "normalizeRepoTagPair [] n = [[n, ''<none>'']]"
    by (simp add: normalizeRepoTagPair_def)
next
  assume "T \<noteq> []"
  then show "length (normalizeRepoTagPair T n) = length T"
    by (simp add: normalizeRepoTagPair_map)
next
  fix i
  assume "T \<noteq> []" "i < length T" "CHR '':'' \<notin> set (T ! i)"
  then show "normalizeRepoTagPair T n ! i = [''errorRepoTag'', ''errorRepoTag'']"
    by (simp add: normalizeRepoTagPair_map LastIndex_notin)
next
  fix i name tag
  assume T: "T \<noteq> []" and i: "i < length T"
    and e: "T ! i = name @ CHR '':'' # tag \<and> CHR '':'' \<notin> set tag"
  from e have t: "CHR '':'' \<notin> set tag" and Ti: "T ! i = name @ CHR '':'' # tag"
    by simp_all
  show "normalizeRepoTagPair T n ! i = [name, tag]"
    unfolding normalizeRepoTagPair_map [OF T] nth_map [OF i] Ti
    using split_last_take [OF t, of name] split_last_drop [OF t, of name] LastIndex_found [OF t, of name]
    by simp
qed

text \<open>The theorem at a tag with a registry port and a tag with no colon.\<close>

theorem normalizeRepoTagPair_spec_witness:
  "length (normalizeRepoTagPair [''reg:5000/img:v1'', ''bad''] ''n'') = 2
   \<and> normalizeRepoTagPair [''reg:5000/img:v1'', ''bad''] ''n'' ! 0 = [''reg:5000/img'', ''v1'']
   \<and> normalizeRepoTagPair [''reg:5000/img:v1'', ''bad''] ''n'' ! 1 = [''errorRepoTag'', ''errorRepoTag'']"
proof -
  let ?T = "[''reg:5000/img:v1'', ''bad'']"
  let ?R = "normalizeRepoTagPair ?T ''n''"
  note spec = normalizeRepoTagPair_spec [of "''n''" ?T]
  have T: "?T \<noteq> []" by simp
  from spec T have len: "length ?R = length ?T"
    by (elim conjE impE) assumption+
  from spec T have all: "\<forall>i < length ?T.
              (CHR '':'' \<notin> set (?T ! i) \<longrightarrow> ?R ! i = [''errorRepoTag'', ''errorRepoTag''])
              \<and> (\<forall>name tag. ?T ! i = name @ CHR '':'' # tag \<and> CHR '':'' \<notin> set tag \<longrightarrow>
                    ?R ! i = [name, tag])"
    by (elim conjE impE) assumption+
  have l1: "(1::nat) < length ?T" and l0: "(0::nat) < length ?T" by simp_all
  from all [rule_format, OF l1] have "CHR '':'' \<notin> set (?T ! 1) \<longrightarrow>
      ?R ! 1 = [''errorRepoTag'', ''errorRepoTag'']"
    by (rule conjunct1)
  then have e1: "?R ! 1 = [''errorRepoTag'', ''errorRepoTag'']"
    by simp
  from all [rule_format, OF l0] have "\<forall>name tag. ?T ! 0 = name @ CHR '':'' # tag \<and> CHR '':'' \<notin> set tag \<longrightarrow>
                    ?R ! 0 = [name, tag]"
    by (rule conjunct2)
  from this [rule_format, of "''reg:5000/img''" "''v1''"]
  have e0: "?R ! 0 = [''reg:5000/img'', ''v1'']" by simp
  from len have "length ?R = 2" by simp
  with e0 e1 show ?thesis by (intro conjI)
qed

subsection \<open>Repository digests\<close>

lemma Split_one_sep:
  "sep \<notin> set u \<Longrightarrow> sep \<notin> set p \<Longrightarrow> Split (u @ sep # p) sep = [u, p]"
  by (simp add: Split_first Split_notin)

lemma normalizeRepoDigest_Cons:
  "normalizeRepoDigest (d # ds) =
     (if length (Split d (CHR ''@'')) = 2
      then (Split d (CHR ''@'') ! 0, Split d (CHR ''@'') ! 1)
      else (''errorName'', ''errorRepoDigest''))"
  by (simp add: normalizeRepoDigest_def Let_def)

text \<open>
  Claim C4. For every list of repository digests, \<open>normalizeRepoDigest\<close> returns
  \<open>(<none>, <none>)\<close> on the empty list. On a list with first entry \<open>d\<close> it returns the
  two parts of \<open>d\<close> when splitting \<open>d\<close> at \<open>@\<close> gives exactly two parts, and
  \<open>(errorName, errorRepoDigest)\<close> otherwise. Exactly two parts means exactly one \<open>@\<close> in
  \<open>d\<close>, and then the parts are the text before and after it.
\<close>

theorem normalizeRepoDigest_spec:
  "normalizeRepoDigest [] = (''<none>'', ''<none>'')
   \<and> normalizeRepoDigest (d # ds) =
       (if length (Split d (CHR ''@'')) = 2
        then (Split d (CHR ''@'') ! 0, Split d (CHR ''@'') ! 1)
        else (''errorName'', ''errorRepoDigest''))
   \<and> (length (Split d (CHR ''@'')) = 2 \<longleftrightarrow> length (filter (\<lambda>c. c = CHR ''@'') d) = 1)
   \<and> (CHR ''@'' \<notin> set name \<and> CHR ''@'' \<notin> set dig \<longrightarrow>
        normalizeRepoDigest ((name @ CHR ''@'' # dig) # ds) = (name, dig))"
proof (intro conjI impI)
  show "normalizeRepoDigest [] = (''<none>'', ''<none>'')"
    by (simp add: normalizeRepoDigest_def)
  show "normalizeRepoDigest (d # ds) =
       (if length (Split d (CHR ''@'')) = 2
        then (Split d (CHR ''@'') ! 0, Split d (CHR ''@'') ! 1)
        else (''errorName'', ''errorRepoDigest''))"
    by (rule normalizeRepoDigest_Cons)
  show "length (Split d (CHR ''@'')) = 2 \<longleftrightarrow> length (filter (\<lambda>c. c = CHR ''@'') d) = 1"
    unfolding Split_length by simp
  show "normalizeRepoDigest ((name @ CHR ''@'' # dig) # ds) = (name, dig)"
    if "CHR ''@'' \<notin> set name \<and> CHR ''@'' \<notin> set dig"
  proof -
    from that have "Split (name @ CHR ''@'' # dig) (CHR ''@'') = [name, dig]"
      by (simp add: Split_one_sep)
    then show ?thesis
      unfolding normalizeRepoDigest_Cons by simp
  qed
qed

text \<open>The theorem at a well-formed digest and at one with two separators.\<close>

theorem normalizeRepoDigest_spec_witness:
  "normalizeRepoDigest [''docker.io/library/busybox@sha256:ab12'', ''x@y'']
     = (''docker.io/library/busybox'', ''sha256:ab12'')
   \<and> normalizeRepoDigest [''a@b@c'', ''x@y''] = (''errorName'', ''errorRepoDigest'')"
  using normalizeRepoDigest_spec [where d = "''a@b@c''" and ds = "[''x@y'']"
      and name = "''docker.io/library/busybox''" and dig = "''sha256:ab12''"]
  by simp

subsection \<open>The order of the images\<close>

lemma Less_in_range:
  "i < length a \<Longrightarrow> j < length a \<Longrightarrow>
   Less a i j =
     Some (if RepoTags (a ! i) \<noteq> [] \<and> RepoTags (a ! j) \<noteq> []
           then hd (RepoTags (a ! i)) < hd (RepoTags (a ! j))
           else if RepoDigests (a ! i) \<noteq> [] \<and> RepoDigests (a ! j) \<noteq> []
           then hd (RepoDigests (a ! i)) < hd (RepoDigests (a ! j))
           else Id' (a ! i) < Id' (a ! j))"
  by (simp add: Less_def hd_conv_nth)

lemma Less_irrefl: "i < length a \<Longrightarrow> Less a i i = Some False"
  by (simp add: Less_in_range)

lemma Less_asym:
  "i < length a \<Longrightarrow> j < length a \<Longrightarrow> Less a i j = Some True \<Longrightarrow> Less a j i = Some False"
  by (auto simp: Less_in_range split: if_splits dest: less_asym)

lemma Less_tags:
  "i < length a \<Longrightarrow> j < length a \<Longrightarrow> \<forall>x\<in>set a. RepoTags x \<noteq> [] \<Longrightarrow>
   Less a i j = Some (hd (RepoTags (a ! i)) < hd (RepoTags (a ! j)))"
  by (simp add: Less_in_range)

lemma Less_digests:
  "i < length a \<Longrightarrow> j < length a \<Longrightarrow> \<forall>x\<in>set a. RepoTags x = [] \<and> RepoDigests x \<noteq> [] \<Longrightarrow>
   Less a i j = Some (hd (RepoDigests (a ! i)) < hd (RepoDigests (a ! j)))"
  by (simp add: Less_in_range)

lemma Less_ids:
  "i < length a \<Longrightarrow> j < length a \<Longrightarrow> \<forall>x\<in>set a. RepoTags x = [] \<and> RepoDigests x = [] \<Longrightarrow>
   Less a i j = Some (Id' (a ! i) < Id' (a ! j))"
  by (simp add: Less_in_range)

lemma Less_trans_uniform:
  assumes "i < length a" "j < length a" "k < length a"
    and u: "(\<forall>x\<in>set a. RepoTags x \<noteq> [])
        \<or> (\<forall>x\<in>set a. RepoTags x = [] \<and> RepoDigests x \<noteq> [])
        \<or> (\<forall>x\<in>set a. RepoTags x = [] \<and> RepoDigests x = [])"
    and ij: "Less a i j = Some True" and jk: "Less a j k = Some True"
  shows "Less a i k = Some True"
proof -
  from u consider
      (tags) "\<forall>x\<in>set a. RepoTags x \<noteq> []"
    | (digests) "\<forall>x\<in>set a. RepoTags x = [] \<and> RepoDigests x \<noteq> []"
    | (ids) "\<forall>x\<in>set a. RepoTags x = [] \<and> RepoDigests x = []"
    by auto
  then show ?thesis
  proof cases
    case tags
    from ij jk show ?thesis
      unfolding Less_tags [OF assms(1,2) tags] Less_tags [OF assms(2,3) tags]
        Less_tags [OF assms(1,3) tags]
      by simp
  next
    case digests
    from ij jk show ?thesis
      unfolding Less_digests [OF assms(1,2) digests] Less_digests [OF assms(2,3) digests]
        Less_digests [OF assms(1,3) digests]
      by simp
  next
    case ids
    from ij jk show ?thesis
      unfolding Less_ids [OF assms(1,2) ids] Less_ids [OF assms(2,3) ids]
        Less_ids [OF assms(1,3) ids]
      by simp
  qed
qed

text \<open>
  Claim C1, as amended. The sort of the images command compares two images of the list
  by their first repository tag when both have at least one tag, else by their first
  repository digest when both have at least one digest, else by their raw identifiers,
  in the ascending bytewise lexicographic order of strings. The comparison is
  irreflexive and asymmetric. On a list whose images all have a tag, or all have no tag
  and a digest, or all have neither, it is transitive as well: there it is the strict
  order of one key for each image.
\<close>

theorem Less_order:
  assumes "i < length a" and "j < length a" and "k < length a"
  shows "Less a i j =
       Some (if RepoTags (a ! i) \<noteq> [] \<and> RepoTags (a ! j) \<noteq> []
             then hd (RepoTags (a ! i)) < hd (RepoTags (a ! j))
             else if RepoDigests (a ! i) \<noteq> [] \<and> RepoDigests (a ! j) \<noteq> []
             then hd (RepoDigests (a ! i)) < hd (RepoDigests (a ! j))
             else Id' (a ! i) < Id' (a ! j))
     \<and> Less a i i = Some False
     \<and> (Less a i j = Some True \<longrightarrow> Less a j i = Some False)
     \<and> ((\<forall>x\<in>set a. RepoTags x \<noteq> [])
          \<or> (\<forall>x\<in>set a. RepoTags x = [] \<and> RepoDigests x \<noteq> [])
          \<or> (\<forall>x\<in>set a. RepoTags x = [] \<and> RepoDigests x = [])
        \<longrightarrow> Less a i j = Some True \<longrightarrow> Less a j k = Some True \<longrightarrow> Less a i k = Some True)
     \<and> (RepoTags (a ! i) \<noteq> [] \<and> RepoTags (a ! j) \<noteq> []
          \<and> hd (RepoTags (a ! i)) = hd (RepoTags (a ! j))
        \<longrightarrow> Less a i j = Some False \<and> Less a j i = Some False)"
proof (intro conjI impI)
  show "Less a i j =
       Some (if RepoTags (a ! i) \<noteq> [] \<and> RepoTags (a ! j) \<noteq> []
             then hd (RepoTags (a ! i)) < hd (RepoTags (a ! j))
             else if RepoDigests (a ! i) \<noteq> [] \<and> RepoDigests (a ! j) \<noteq> []
             then hd (RepoDigests (a ! i)) < hd (RepoDigests (a ! j))
             else Id' (a ! i) < Id' (a ! j))"
    using assms(1,2) by (rule Less_in_range)
  show "Less a i i = Some False"
    using assms(1) by (rule Less_irrefl)
  show "Less a j i = Some False" if "Less a i j = Some True"
    using assms(1,2) that by (rule Less_asym)
  show "Less a i k = Some True"
    if "(\<forall>x\<in>set a. RepoTags x \<noteq> [])
          \<or> (\<forall>x\<in>set a. RepoTags x = [] \<and> RepoDigests x \<noteq> [])
          \<or> (\<forall>x\<in>set a. RepoTags x = [] \<and> RepoDigests x = [])"
      and "Less a i j = Some True" and "Less a j k = Some True"
    using assms that by (rule Less_trans_uniform)
  show "Less a i j = Some False" and "Less a j i = Some False"
    if "RepoTags (a ! i) \<noteq> [] \<and> RepoTags (a ! j) \<noteq> []
          \<and> hd (RepoTags (a ! i)) = hd (RepoTags (a ! j))"
    using assms(1,2) that by (simp_all add: Less_in_range)
qed

text \<open>The theorem on three images that all have a tag.\<close>

theorem Less_order_witness:
  "Less [imageOf ''1'' [''b:1''] [], imageOf ''2'' [''a:1''] [], imageOf ''3'' [''c:1''] []] 1 2
     = Some True
   \<and> Less [imageOf ''1'' [''b:1''] [], imageOf ''2'' [''a:1''] [], imageOf ''3'' [''c:1''] []] 0 1
     = Some False"
proof -
  let ?a = "[imageOf ''1'' [''b:1''] [], imageOf ''2'' [''a:1''] [], imageOf ''3'' [''c:1''] []]"
  have len: "(1::nat) < length ?a" "(0::nat) < length ?a" "(2::nat) < length ?a"
    by simp_all
  note spec = Less_order [OF len]
  have u: "(\<forall>x\<in>set ?a. RepoTags x \<noteq> [])
          \<or> (\<forall>x\<in>set ?a. RepoTags x = [] \<and> RepoDigests x \<noteq> [])
          \<or> (\<forall>x\<in>set ?a. RepoTags x = [] \<and> RepoDigests x = [])"
    by (simp add: imageOf_def)
  have l10: "Less ?a 1 0 = Some True"
    unfolding spec [THEN conjunct1] by (simp add: imageOf_def)
  have l02: "Less ?a 0 2 = Some True"
    by (simp add: Less_def imageOf_def)
  from spec [THEN conjunct2, THEN conjunct2, THEN conjunct2, THEN conjunct1, rule_format,
      OF u l10 l02]
  have "Less ?a 1 2 = Some True" .
  moreover from spec [THEN conjunct2, THEN conjunct2, THEN conjunct1, rule_format, OF l10]
  have "Less ?a 0 1 = Some False" .
  ultimately show ?thesis by (rule conjI)
qed

text \<open>
  The claim as stated fails. On three images of which the second has no tag the
  comparison runs in a cycle (the first is less than the second and the second less
  than the third by identifier, the third less than the first by tag), so it is no
  total order; and two images with the same first tag and different identifiers are
  not ordered by their identifiers.
\<close>

theorem Less_not_total_order:
  "Less [imageOf ''a'' [''z:1''] [], imageOf ''b'' [] [], imageOf ''c'' [''y:1''] []] 0 1 = Some True
   \<and> Less [imageOf ''a'' [''z:1''] [], imageOf ''b'' [] [], imageOf ''c'' [''y:1''] []] 1 2 = Some True
   \<and> Less [imageOf ''a'' [''z:1''] [], imageOf ''b'' [] [], imageOf ''c'' [''y:1''] []] 2 0 = Some True
   \<and> Less [imageOf ''d'' [''t:1''] [], imageOf ''e'' [''t:1''] []] 0 1 = Some False
   \<and> Less [imageOf ''d'' [''t:1''] [], imageOf ''e'' [''t:1''] []] 1 0 = Some False
   \<and> Id' (imageOf ''d'' [''t:1''] []) < Id' (imageOf ''e'' [''t:1''] [])"
  by (simp add: Less_def imageOf_def)

subsection \<open>The images command\<close>

lemma TrimPrefix_eq:
  "TrimPrefix s pre = (if take (length pre) s = pre then drop (length pre) s else s)"
  by (auto simp: TrimPrefix_def HasPrefix_def)

lemma tableRows_eq:
  "tableRows ext flags img w =
     w @ concat (map (\<lambda>repoTagPair.
                   repoTagPair ! 0 @ tab @ repoTagPair ! 1 @ tab
                   @ (if f_digests flags then snd (normalizeRepoDigest (RepoDigests img)) @ tab
                      else [])
                   @ displayedID (f_noTrunc flags) img @ tab
                   @ HumanSizeWithPrecision ext (Size' img) @ newline)
                (normalizeRepoTagPair (RepoTags img)
                   (fst (normalizeRepoDigest (RepoDigests img)))))"
proof (cases "f_digests flags")
  case True
  then show ?thesis
    by (simp add: tableRows_def Let_def split_beta foldl_append_concat)
next
  case False
  then show ?thesis
    by (simp add: tableRows_def Let_def split_beta foldl_append_concat)
qed

lemma listImageCommand_table:
  assumes "f_output flags \<noteq> ''json''" "f_output flags \<noteq> ''yaml''"
  shows "listImageCommand ext client flags args sent =
     (case clientListImages client sent (First args) of
        Inl err \<Rightarrow> ((Some (ListFailed err), [], []), sent @ [ListImagesRequest (First args)])
      | Inr r \<Rightarrow>
          ((None,
            foldl (printImage ext flags)
              ([], if \<not> f_verbose flags \<and> \<not> f_quiet flags then
                     (if f_digests flags
                      then ''IMAGE'' @ tab @ ''TAG'' @ tab @ ''DIGEST'' @ tab @ ''IMAGE ID''
                             @ tab @ ''SIZE'' @ newline
                      else ''IMAGE'' @ tab @ ''TAG'' @ tab @ ''IMAGE ID'' @ tab @ ''SIZE''
                             @ newline)
                   else [])
              (sortImages ext r)),
           sent @ [ListImagesRequest (First args)]))"
  using assms
  by (simp add: listImageCommand_def ListImages_def Let_def split: sum.split prod.split)

lemma printImage_quiet:
  "f_quiet flags \<Longrightarrow>
     foldl (printImage ext flags) (out, w) images =
       (out @ concat (map (\<lambda>img. Id' img @ newline) images), w)"
  by (induction images arbitrary: out) (simp_all add: printImage_def)

lemma displayedID_eq:
  "displayedID noTrunc img =
     (if noTrunc then Id' img else take 12 (TrimPrefix (Id' img) ''sha256:''))"
  by (simp add: displayedID_def Let_def truncatedIDLen_def)

lemma printImage_table:
  assumes "\<not> f_quiet flags" and "\<not> f_verbose flags"
  shows "foldl (printImage ext flags) (out, w) images =
     (out, w @ concat (map (\<lambda>img.
         concat (map (\<lambda>repoTagPair.
             repoTagPair ! 0 @ tab @ repoTagPair ! 1 @ tab
             @ (if f_digests flags then snd (normalizeRepoDigest (RepoDigests img)) @ tab
                else [])
             @ displayedID (f_noTrunc flags) img @ tab
             @ HumanSizeWithPrecision ext (Size' img) @ newline)
           (normalizeRepoTagPair (RepoTags img)
              (fst (normalizeRepoDigest (RepoDigests img)))))) images))"
  using assms
proof (induction images arbitrary: w)
  case Nil
  show ?case by simp
next
  case (Cons img images)
  have step: "printImage ext flags (out, w) img = (out, tableRows ext flags img w)"
    using Cons.prems by (simp add: printImage_def)
  show ?case
    unfolding foldl_Cons step Cons.IH [OF Cons.prems] tableRows_eq by simp
qed

text \<open>
  Claim C6. In table mode (output neither json nor yaml, not quiet, not verbose) the
  images command prints nothing by itself and hands the tabwriter the header line
  followed, for every image of the sorted list and every pair of name and tag of that
  image, by one row. The identifier in each row of an image is its raw identifier with
  one leading \<open>sha256:\<close> removed and then cut to at most 12 characters when truncation
  is on (no \<^verbatim>\<open>--no-trunc\<close>), and the raw identifier unchanged with \<^verbatim>\<open>--no-trunc\<close>.
\<close>

theorem listImageCommand_table_id:
  assumes "clientListImages client sent (First args) = Inr r"
    and "f_output flags \<noteq> ''json''" and "f_output flags \<noteq> ''yaml''"
    and "\<not> f_quiet flags" and "\<not> f_verbose flags"
  shows "listImageCommand ext client flags args sent =
     ((None, [],
       (if f_digests flags
        then ''IMAGE'' @ tab @ ''TAG'' @ tab @ ''DIGEST'' @ tab @ ''IMAGE ID'' @ tab @ ''SIZE''
               @ newline
        else ''IMAGE'' @ tab @ ''TAG'' @ tab @ ''IMAGE ID'' @ tab @ ''SIZE'' @ newline)
       @ concat (map (\<lambda>img.
           concat (map (\<lambda>repoTagPair.
               repoTagPair ! 0 @ tab @ repoTagPair ! 1 @ tab
               @ (if f_digests flags then snd (normalizeRepoDigest (RepoDigests img)) @ tab
                  else [])
               @ (if f_noTrunc flags then Id' img
                  else take 12 (TrimPrefix (Id' img) ''sha256:''))
               @ tab @ HumanSizeWithPrecision ext (Size' img) @ newline)
             (normalizeRepoTagPair (RepoTags img)
                (fst (normalizeRepoDigest (RepoDigests img))))))
          (sortImages ext r))),
      sent @ [ListImagesRequest (First args)])
   \<and> TrimPrefix s ''sha256:'' = (if take 7 s = ''sha256:'' then drop 7 s else s)"
proof (rule conjI)
  show "TrimPrefix s ''sha256:'' = (if take 7 s = ''sha256:'' then drop 7 s else s)"
  proof -
    have l: "length ''sha256:'' = 7" by simp
    show ?thesis
      using TrimPrefix_eq [of s "''sha256:''"] unfolding l .
  qed
  show "listImageCommand ext client flags args sent =
     ((None, [],
       (if f_digests flags
        then ''IMAGE'' @ tab @ ''TAG'' @ tab @ ''DIGEST'' @ tab @ ''IMAGE ID'' @ tab @ ''SIZE''
               @ newline
        else ''IMAGE'' @ tab @ ''TAG'' @ tab @ ''IMAGE ID'' @ tab @ ''SIZE'' @ newline)
       @ concat (map (\<lambda>img.
           concat (map (\<lambda>repoTagPair.
               repoTagPair ! 0 @ tab @ repoTagPair ! 1 @ tab
               @ (if f_digests flags then snd (normalizeRepoDigest (RepoDigests img)) @ tab
                  else [])
               @ (if f_noTrunc flags then Id' img
                  else take 12 (TrimPrefix (Id' img) ''sha256:''))
               @ tab @ HumanSizeWithPrecision ext (Size' img) @ newline)
             (normalizeRepoTagPair (RepoTags img)
                (fst (normalizeRepoDigest (RepoDigests img))))))
          (sortImages ext r))),
      sent @ [ListImagesRequest (First args)])"
    unfolding listImageCommand_table [OF assms(2,3)] assms(1) sum.case
      printImage_table [OF assms(4,5)] displayedID_eq
    using assms(4,5) by simp
qed

text \<open>
  The example of the spec: the identifier \<open>sha256:abcdef0123456789abcdef0123456789\<close> is
  shown as \<open>abcdef012345\<close> in both rows of the image.
\<close>

theorem listImageCommand_table_id_witness:
  "listImageCommand demoExternals demoClient
     \<lparr>f_verbose = False, f_quiet = False, f_output = [], f_digests = False, f_noTrunc = False\<rparr>
     [] [] =
     ((None, [],
       ''IMAGE'' @ tab @ ''TAG'' @ tab @ ''IMAGE ID'' @ tab @ ''SIZE'' @ newline
       @ ''busybox'' @ tab @ ''latest'' @ tab @ ''abcdef012345'' @ tab @ ''4.26MB'' @ newline
       @ ''busybox'' @ tab @ ''1.36'' @ tab @ ''abcdef012345'' @ tab @ ''4.26MB'' @ newline),
      [ListImagesRequest []])"
proof -
  let ?flags = "\<lparr>f_verbose = False, f_quiet = False, f_output = [], f_digests = False,
     f_noTrunc = False\<rparr>"
  have 1: "clientListImages demoClient [] (First []) = Inr [demoImage]"
    by (simp add: demoClient_def)
  have 3: "f_output ?flags \<noteq> ''json''" "f_output ?flags \<noteq> ''yaml''" by simp_all
  have 4: "\<not> f_quiet ?flags" "\<not> f_verbose ?flags" by simp_all
  have srt: "sortImages demoExternals [demoImage] = [demoImage]"
    by (simp add: demoExternals_def)
  have sz: "HumanSizeWithPrecision demoExternals n = ''4.26MB''" for n
    by (simp add: demoExternals_def)
  have dg: "normalizeRepoDigest (RepoDigests demoImage) = (''busybox'', ''sha256:ab12'')"
    by (simp add: demoImage_def normalizeRepoDigest_def)
  have tg: "normalizeRepoTagPair (RepoTags demoImage) ''busybox''
      = [[''busybox'', ''latest''], [''busybox'', ''1.36'']]"
    by (simp add: demoImage_def normalizeRepoTagPair_def)
  have i: "take 12 (TrimPrefix (Id' demoImage) ''sha256:'') = ''abcdef012345''"
    by (simp add: demoImage_def TrimPrefix_def HasPrefix_def)
  show ?thesis
    unfolding listImageCommand_table_id [OF 1 3 4, THEN conjunct1] srt
    by (simp add: sz dg tg i First_def)
qed

text \<open>
  Claim C8. When the service answers the list request with the empty list (and sorting
  the empty list gives the empty list), the images command in table mode (output
  neither json nor yaml, not quiet, not verbose) prints nothing by itself, hands the
  tabwriter exactly the header line and no row, and returns no error.
\<close>

theorem listImageCommand_empty:
  assumes "clientListImages client sent (First args) = Inr []"
    and "sortImages ext [] = []"
    and "f_output flags \<noteq> ''json''" and "f_output flags \<noteq> ''yaml''"
    and "\<not> f_quiet flags" and "\<not> f_verbose flags"
  shows "listImageCommand ext client flags args sent =
     ((None, [],
       if f_digests flags
       then ''IMAGE'' @ tab @ ''TAG'' @ tab @ ''DIGEST'' @ tab @ ''IMAGE ID'' @ tab @ ''SIZE''
              @ newline
       else ''IMAGE'' @ tab @ ''TAG'' @ tab @ ''IMAGE ID'' @ tab @ ''SIZE'' @ newline),
      sent @ [ListImagesRequest (First args)])"
  unfolding listImageCommand_table [OF assms(3,4)]
  using assms(1,2,5,6) by simp

text \<open>The theorem for a service with no image.\<close>

theorem listImageCommand_empty_witness:
  "listImageCommand demoExternals (demoClient\<lparr>clientListImages := (\<lambda>sent filter. Inr [])\<rparr>)
     \<lparr>f_verbose = False, f_quiet = False, f_output = [], f_digests = False, f_noTrunc = False\<rparr>
     [] [] =
     ((None, [], ''IMAGE'' @ tab @ ''TAG'' @ tab @ ''IMAGE ID'' @ tab @ ''SIZE'' @ newline),
      [ListImagesRequest []])"
proof -
  let ?client = "demoClient\<lparr>clientListImages := (\<lambda>sent filter. Inr [])\<rparr>"
  let ?flags = "\<lparr>f_verbose = False, f_quiet = False, f_output = [], f_digests = False,
     f_noTrunc = False\<rparr>"
  have 1: "clientListImages ?client [] (First []) = Inr []" by simp
  have 2: "sortImages demoExternals [] = []" by (simp add: demoExternals_def)
  have 3: "f_output ?flags \<noteq> ''json''" "f_output ?flags \<noteq> ''yaml''" by simp_all
  have 4: "\<not> f_quiet ?flags" "\<not> f_verbose ?flags" by simp_all
  show ?thesis
    unfolding listImageCommand_empty [OF 1 2 3 4] by (simp add: First_def)
qed

text \<open>
  Claim C10, as amended. When both \<^verbatim>\<open>--quiet\<close> and \<^verbatim>\<open>--verbose\<close> are set and the output
  format is neither json nor yaml, quiet wins for every image: the command prints the
  raw identifier of each image of the sorted list, one per line, and nothing else; no
  header and no row is written to the tabwriter, and no verbose block is printed.
\<close>

theorem listImageCommand_quiet:
  assumes "clientListImages client sent (First args) = Inr r"
    and "f_output flags \<noteq> ''json''" and "f_output flags \<noteq> ''yaml''"
    and "f_quiet flags" and "f_verbose flags"
  shows "listImageCommand ext client flags args sent =
     ((None, concat (map (\<lambda>img. Id' img @ newline) (sortImages ext r)), []),
      sent @ [ListImagesRequest (First args)])"
  unfolding listImageCommand_table [OF assms(2,3)]
  using assms(1,4,5) by (simp add: printImage_quiet)

text \<open>The theorem for the service with one image.\<close>

theorem listImageCommand_quiet_witness:
  "listImageCommand demoExternals demoClient
     \<lparr>f_verbose = True, f_quiet = True, f_output = ''table'', f_digests = True, f_noTrunc = False\<rparr>
     [''busybox''] [] =
     ((None, ''sha256:abcdef0123456789abcdef0123456789'' @ newline, []),
      [ListImagesRequest ''busybox''])"
proof -
  let ?flags = "\<lparr>f_verbose = True, f_quiet = True, f_output = ''table'', f_digests = True,
     f_noTrunc = False\<rparr>"
  have 1: "clientListImages demoClient [] (First [''busybox'']) = Inr [demoImage]"
    by (simp add: demoClient_def)
  have 3: "f_output ?flags \<noteq> ''json''" "f_output ?flags \<noteq> ''yaml''" by simp_all
  have 4: "f_quiet ?flags" "f_verbose ?flags" by simp_all
  show ?thesis
    unfolding listImageCommand_quiet [OF 1 3 4]
    by (simp add: First_def demoExternals_def demoImage_def)
qed

text \<open>
  The claim as stated fails when the output format is json: the switch on the output
  format comes first, so the command prints what the JSON printer writes for the whole
  response, and not the identifier of the image.
\<close>

theorem listImageCommand_quiet_json:
  "listImageCommand demoExternals demoClient
     \<lparr>f_verbose = True, f_quiet = True, f_output = ''json'', f_digests = False, f_noTrunc = False\<rparr>
     [] [] =
     ((None, ''{}'', []), [ListImagesRequest []])
   \<and> ''{}'' \<noteq> Id' demoImage @ newline"
  by (simp add: listImageCommand_def ListImages_def First_def demoClient_def demoExternals_def
      demoImage_def)

subsection \<open>The inspecti command\<close>

lemma imageStatusLoop_invalid_output:
  assumes "output \<noteq> ''json''" "output \<noteq> ''yaml''" "output \<noteq> ''table''"
  shows "imageStatusLoop ext client verbose output (i # ids) (sent, out) =
     (case clientImageStatus client sent i verbose of
        Inl err \<Rightarrow>
          (Some (InspectStatusFailed i err), sent @ [ImageStatusRequest i verbose], out)
      | Inr r \<Rightarrow>
          (case Image r of
             None \<Rightarrow> (Some (NoSuchImagePresent i), sent @ [ImageStatusRequest i verbose], out)
           | Some img \<Rightarrow>
               (case protobufObjectToJSON ext img of
                  Inl err \<Rightarrow>
                    (Some (MarshalFailed i err), sent @ [ImageStatusRequest i verbose], out)
                | Inr status \<Rightarrow>
                    (Some (OutputOptionInvalid output),
                     sent @ [ImageStatusRequest i verbose], out))))"
  using assms by (simp add: ImageStatus_def split: sum.split option.split)

text \<open>
  Claim C5, as amended. For the inspecti command with at least one identifier and an
  output value that is not empty and outside json, yaml and table, once the client of
  the image service has been set up, the status request for the first identifier is
  sent first, and it is the only request sent. The command
  fails with "output option cannot be ..." when that request returns an image whose
  status can be marshalled to JSON; it fails with the error of the status request, of
  the missing image or of the marshalling otherwise. Nothing is printed.
\<close>

theorem imageStatusCommand_invalid_output:
  assumes "getImageClient ext = None"
    and "s_output flags \<noteq> []"
    and "s_output flags \<noteq> ''json''"
    and "s_output flags \<noteq> ''yaml''"
    and "s_output flags \<noteq> ''table''"
  shows "imageStatusCommand ext client flags (i # ids) sent =
     (case clientImageStatus client sent i (\<not> s_quiet flags) of
        Inl err \<Rightarrow>
          (Some (InspectStatusFailed i err),
           sent @ [ImageStatusRequest i (\<not> s_quiet flags)], [])
      | Inr r \<Rightarrow>
          (case Image r of
             None \<Rightarrow>
               (Some (NoSuchImagePresent i),
                sent @ [ImageStatusRequest i (\<not> s_quiet flags)], [])
           | Some img \<Rightarrow>
               (case protobufObjectToJSON ext img of
                  Inl err \<Rightarrow>
                    (Some (MarshalFailed i err),
                     sent @ [ImageStatusRequest i (\<not> s_quiet flags)], [])
                | Inr status \<Rightarrow>
                    (Some (OutputOptionInvalid (s_output flags)),
                     sent @ [ImageStatusRequest i (\<not> s_quiet flags)], []))))"
proof -
  have "imageStatusCommand ext client flags (i # ids) sent =
      imageStatusLoop ext client (\<not> s_quiet flags) (s_output flags) (i # ids) (sent, [])"
    using assms(1,2) by (simp add: imageStatusCommand_def Let_def del: imageStatusLoop.simps)
  then show ?thesis
    unfolding imageStatusLoop_invalid_output [OF assms(3-5)] .
qed

text \<open>
  The theorem at an image the service knows, where the command ends in the error of the
  output option, and at an identifier the service does not know.
\<close>

theorem imageStatusCommand_invalid_output_witness:
  "imageStatusCommand demoExternals demoClient \<lparr>s_output = ''xml'', s_quiet = True\<rparr>
     [''busybox'', ''missing''] [] =
     (Some (OutputOptionInvalid ''xml''), [ImageStatusRequest ''busybox'' False], [])
   \<and> imageStatusCommand demoExternals demoClient \<lparr>s_output = ''xml'', s_quiet = True\<rparr>
     [''missing'', ''busybox''] [] =
     (Some (NoSuchImagePresent ''missing''), [ImageStatusRequest ''missing'' False], [])"
proof -
  let ?flags = "\<lparr>s_output = ''xml'', s_quiet = True\<rparr>"
  have g: "getImageClient demoExternals = None"
    by (simp add: demoExternals_def)
  have h: "s_output ?flags \<noteq> []" "s_output ?flags \<noteq> ''json''"
    "s_output ?flags \<noteq> ''yaml''" "s_output ?flags \<noteq> ''table''"
    by simp_all
  have j: "protobufObjectToJSON demoExternals img = Inr ''{}''" for img
    by (simp add: demoExternals_def)
  show ?thesis
    unfolding imageStatusCommand_invalid_output [OF g h]
    by (simp add: demoClient_def j)
qed

text \<open>
  The claim as stated fails: with the output value \<open>xml\<close> and an image the service
  knows, the command fails with the error of the output option after the status request
  has been sent.
\<close>

theorem inspecti_status_before_validation:
  "imageStatusCommand demoExternals demoClient \<lparr>s_output = ''xml'', s_quiet = False\<rparr>
     [''busybox''] [] =
     (Some (OutputOptionInvalid ''xml''), [ImageStatusRequest ''busybox'' True], [])"
  by (simp add: imageStatusCommand_def ImageStatus_def demoClient_def demoExternals_def)

subsection \<open>Removing images\<close>

text \<open>
  Claim C9. \<open>RemoveImage\<close> called with the empty string as the image identifier returns
  the error "ImageID cannot be empty", and the requests sent to the image service are
  the same after the call as before: no request is issued.
\<close>

theorem RemoveImage_empty:
  "RemoveImage client sent [] = (Inl ImageIDEmpty, sent)"
  by (simp add: RemoveImage_def)

text \<open>The theorem after one request has been sent.\<close>

theorem RemoveImage_empty_witness:
  "RemoveImage demoClient [ImageStatusRequest [] False] [] =
     (Inl ImageIDEmpty, [ImageStatusRequest [] False])"
  by (rule RemoveImage_empty)

lemma removeImageLoop_Cons:
  "removeImageLoop client (i # ids) (sent, out) =
     (case clientImageStatus client sent i False of
        Inl err \<Rightarrow> (Some (StatusRequestFailed i err), sent @ [ImageStatusRequest i False], out)
      | Inr status \<Rightarrow>
          (case Image status of
             None \<Rightarrow> (Some (NoSuchImage i), sent @ [ImageStatusRequest i False], out)
           | Some img \<Rightarrow>
               if i = [] then
                 (Some (RemoveFailed i ImageIDEmpty), sent @ [ImageStatusRequest i False], out)
               else
                 (case clientRemoveImage client (sent @ [ImageStatusRequest i False]) i of
                    Inl err \<Rightarrow>
                      (Some (RemoveFailed i err),
                       sent @ [ImageStatusRequest i False, RemoveImageRequest i], out)
                  | Inr u \<Rightarrow>
                      removeImageLoop client ids
                        (sent @ [ImageStatusRequest i False, RemoveImageRequest i],
                         out @ concat (map (\<lambda>repoTag. ''Deleted: '' @ repoTag @ newline)
                                        (RepoTags img))))))"
  by (simp add: ImageStatus_def RemoveImage_def foldl_append_concat Let_def
      split: sum.split option.split)

lemma removeImageLoop_append:
  "removeImageLoop client (xs @ ys) (sent, out) =
     (case removeImageLoop client xs (sent, out) of
        (None, sent', out') \<Rightarrow> removeImageLoop client ys (sent', out')
      | (Some err, sent', out') \<Rightarrow> (Some err, sent', out'))"
proof (induction xs arbitrary: sent out)
  case Nil
  show ?case by simp
next
  case (Cons i xs)
  show ?case
    unfolding append_Cons removeImageLoop_Cons
    by (simp add: Cons.IH split: sum.split option.split)
qed


text \<open>
  Claim C7. Once the client of the image service has been set up, the rmi command
  runs the loop over its identifiers. It handles them in argument order, each one from the
  state the ones before it left. For one identifier \<open>i\<close>, the status request for \<open>i\<close>,
  not verbose, is sent first. If it fails, or if its response carries no image (the
  error "no such image"), the command returns the error with no request sent after
  the status request. Otherwise \<open>RemoveImage\<close> is called: for the empty identifier it
  fails without a request, for any other it sends the remove request; when that
  succeeds, "Deleted: tag" is printed for every repository tag of the status response
  (fetched before the removal) and the loop goes on with the identifiers left. The
  first error ends the command: the run on \<open>xs @ ys\<close> is the run on \<open>xs\<close>, followed by
  the run on \<open>ys\<close> only when the run on \<open>xs\<close> returned no error.
\<close>

theorem removeImageLoop_spec:
  "removeImageLoop client [] (sent, out) = (None, sent, out)
   \<and> removeImageLoop client (i # ids) (sent, out) =
       (case clientImageStatus client sent i False of
          Inl err \<Rightarrow> (Some (StatusRequestFailed i err), sent @ [ImageStatusRequest i False], out)
        | Inr status \<Rightarrow>
            (case Image status of
               None \<Rightarrow> (Some (NoSuchImage i), sent @ [ImageStatusRequest i False], out)
             | Some img \<Rightarrow>
                 if i = [] then
                   (Some (RemoveFailed i ImageIDEmpty), sent @ [ImageStatusRequest i False], out)
                 else
                   (case clientRemoveImage client (sent @ [ImageStatusRequest i False]) i of
                      Inl err \<Rightarrow>
                        (Some (RemoveFailed i err),
                         sent @ [ImageStatusRequest i False, RemoveImageRequest i], out)
                    | Inr u \<Rightarrow>
                        removeImageLoop client ids
                          (sent @ [ImageStatusRequest i False, RemoveImageRequest i],
                           out @ concat (map (\<lambda>repoTag. ''Deleted: '' @ repoTag @ newline)
                                          (RepoTags img))))))
   \<and> removeImageLoop client (xs @ ys) (sent, out) =
       (case removeImageLoop client xs (sent, out) of
          (None, sent', out') \<Rightarrow> removeImageLoop client ys (sent', out')
        | (Some err, sent', out') \<Rightarrow> (Some err, sent', out'))
   \<and> (getImageClient ext = None \<longrightarrow>
        removeImageCommand ext client (i # ids) sent = removeImageLoop client (i # ids) (sent, []))"
proof (intro conjI impI)
  show "removeImageLoop client [] (sent, out) = (None, sent, out)"
    by simp
  show "removeImageCommand ext client (i # ids) sent = removeImageLoop client (i # ids) (sent, [])"
    if "getImageClient ext = None"
    using that by (simp add: removeImageCommand_def)
qed (rule removeImageLoop_Cons removeImageLoop_append)+

text \<open>
  A run on three identifiers, the second of them unknown to the service: the first image
  is removed, the command fails at the second, and nothing is sent for the third.
\<close>

theorem removeImageLoop_spec_witness:
  "removeImageCommand demoExternals demoClient [''busybox'', ''missing'', ''busybox''] [] =
     (Some (NoSuchImage ''missing''),
      [ImageStatusRequest ''busybox'' False, RemoveImageRequest ''busybox'',
       ImageStatusRequest ''missing'' False],
      ''Deleted: busybox:latest'' @ newline @ ''Deleted: busybox:1.36'' @ newline)"
proof -
  have c: "clientImageStatus demoClient s i False =
      Inr \<lparr>Image = (if i = ''busybox'' then Some demoImage else None), Info = []\<rparr>" for s i
    by (simp add: demoClient_def)
  have r: "clientRemoveImage demoClient s i = Inr ()" for s i
    by (simp add: demoClient_def)
  have t: "RepoTags demoImage = [''busybox:latest'', ''busybox:1.36'']"
    by (simp add: demoImage_def)
  note step = removeImageLoop_spec [THEN conjunct2, THEN conjunct1]
  have cmd: "removeImageCommand demoExternals demoClient [''busybox'', ''missing'', ''busybox''] [] =
      removeImageLoop demoClient [''busybox'', ''missing'', ''busybox''] ([], [])"
  proof -
    have g: "getImageClient demoExternals = None"
      by (simp add: demoExternals_def)
    note spec = removeImageLoop_spec [where client = demoClient and ext = demoExternals
        and i = "''busybox''" and ids = "[''missing'', ''busybox'']" and sent = "[]"]
    from spec [THEN conjunct2, THEN conjunct2, THEN conjunct2, rule_format, OF g]
    show ?thesis .
  qed
  show ?thesis
    unfolding cmd
    by (simp add: step c r t del: removeImageLoop.simps(2))
qed

end
